theory Spec2Isabelle
  imports Complex_Main
begin

section \<open>The arena targeting game of \<open>src/pages/index.tsx\<close>\<close>

text \<open>
  The page is one React function component, \<open>Home\<close>. Its state is six \<open>useState\<close>
  cells (\<open>targets\<close>, \<open>score\<close>, \<open>misses\<close>, \<open>gameActive\<close>, \<open>timeLeft\<close>,
  \<open>difficulty\<close>), two refs holding interval handles (\<open>gameTimerRef\<close>,
  \<open>targetTimerRef\<close>) and the browser's timer table. The model is a record of these,
  and every handler and timer callback of the component is a function from state to state.

  Two things of the source are made explicit.

  \<^item> \<^emph>\<open>Closures.\<close> \<open>startGame\<close>, \<open>endGame\<close>, \<open>spawnTargets\<close>, \<open>hitTarget\<close> and
    \<open>handleArenaClick\<close> are created anew by every render and read the \<open>gameActive\<close> and
    \<open>difficulty\<close> constants of the render that created them. A setter called with a function
    (\<open>setMisses(m => m + 1)\<close>) reads the current cell; a plain read of \<open>gameActive\<close> reads
    the render's constant. So each handler below takes the values its closure captured as
    parameters, and a timer callback stored in the timer table carries them with it.
  \<^item> \<^emph>\<open>Time.\<close> \<open>clock\<close> is the time in milliseconds: \<open>Date.now()\<close> reads it,
    \<open>setTimeout\<close> and \<open>setInterval\<close> add their delay to it, and a timer may fire once
    the clock has reached the time it is due, at that time or later, in any order with the
    other timers that are due. An interval that has fired is due again one period after the
    time at which it fired. A handler takes no time.

  JavaScript numbers are modelled by \<open>int\<close> and \<open>nat\<close> where the source only counts, and
  by \<open>real\<close> for the pixel coordinates (the source computes them in floating point).
\<close>

subsection \<open>Data\<close>

record target =
  target_id :: nat
  target_x :: real
  target_y :: real
  target_active :: bool
  target_hit :: bool

datatype level = Easy | Medium | Hard

record settings =
  targetDuration :: nat
  spawnInterval :: nat
  targetSize :: real

definition difficultySettings :: "level \<Rightarrow> settings" where
  "difficultySettings l =
     (case l of
        Easy \<Rightarrow> \<lparr>targetDuration = 2000, spawnInterval = 1500, targetSize = 80\<rparr>
      | Medium \<Rightarrow> \<lparr>targetDuration = 1500, spawnInterval = 1200, targetSize = 60\<rparr>
      | Hard \<Rightarrow> \<lparr>targetDuration = 1000, spawnInterval = 800, targetSize = 45\<rparr>)"

text \<open>
  The callbacks handed to \<open>setInterval\<close> and \<open>setTimeout\<close>, with what their closures
  captured: the spawner's callback holds \<open>gameActive\<close> and \<open>settings\<close> of the render
  whose \<open>startGame\<close> ran; the expiry callback holds \<open>newTarget.id\<close> and the same
  \<open>gameActive\<close>; the removal callback of \<open>hitTarget\<close> holds \<open>targetId\<close>.
\<close>

datatype interval_cb = GameTick | SpawnTick bool settings

datatype timeout_cb = Expire nat bool | Remove nat

record interval =
  iv_id :: nat
  iv_period :: nat
  iv_due :: nat
  iv_cb :: interval_cb

record timeout =
  to_id :: nat
  to_due :: nat
  to_cb :: timeout_cb

record state =
  targets :: "target list"
  score :: int
  misses :: int
  gameActive :: bool
  timeLeft :: int
  difficulty :: level
  gameTimerRef :: "nat option"
  targetTimerRef :: "nat option"
  intervals :: "interval list"
  timeouts :: "timeout list"
  nextTimer :: nat
  clock :: nat

text \<open>What a spawner tick reads from outside: the arena's bounding rectangle and two
  results of \<open>Math.random()\<close>.\<close>

record env =
  arenaWidth :: real
  arenaHeight :: real
  random1 :: real
  random2 :: real

subsection \<open>The timer table\<close>

definition setInterval :: "interval_cb \<Rightarrow> nat \<Rightarrow> state \<Rightarrow> nat \<times> state" where
  "setInterval cb ms s =
     (nextTimer s,
      s\<lparr>intervals := intervals s @
           [\<lparr>iv_id = nextTimer s, iv_period = ms, iv_due = clock s + ms, iv_cb = cb\<rparr>],
        nextTimer := nextTimer s + 1\<rparr>)"

definition setTimeout :: "timeout_cb \<Rightarrow> nat \<Rightarrow> state \<Rightarrow> state" where
  "setTimeout cb ms s =
     s\<lparr>timeouts := timeouts s @
          [\<lparr>to_id = nextTimer s, to_due = clock s + ms, to_cb = cb\<rparr>],
       nextTimer := nextTimer s + 1\<rparr>"

definition clearInterval :: "nat \<Rightarrow> state \<Rightarrow> state" where
  "clearInterval h s = s\<lparr>intervals := filter (\<lambda>iv. iv_id iv \<noteq> h) (intervals s)\<rparr>"

text \<open>\<open>if (ref.current) clearInterval(ref.current)\<close>: a ref that was never set holds
  \<open>null\<close>; a timer handle is never falsy (\<open>nextTimer\<close> starts at 1).\<close>

definition clearRef :: "nat option \<Rightarrow> state \<Rightarrow> state" where
  "clearRef r s = (case r of None \<Rightarrow> s | Some h \<Rightarrow> clearInterval h s)"

subsection \<open>The handlers of the component\<close>

definition endGame :: "state \<Rightarrow> state" where
  "endGame s =
     (let s1 = s\<lparr>gameActive := False\<rparr>;
          s2 = clearRef (gameTimerRef s1) s1;
          s3 = clearRef (targetTimerRef s2) s2
      in s3\<lparr>targets := []\<rparr>)"

text \<open>\<open>spawnTargets\<close> of a render with \<open>gameActive = ga\<close> and \<open>difficulty = l\<close>.\<close>

definition spawnTargets :: "bool \<Rightarrow> level \<Rightarrow> state \<Rightarrow> state" where
  "spawnTargets ga l s =
     (let st = difficultySettings l;
          (h, s1) = setInterval (SpawnTick ga st) (spawnInterval st) s
      in s1\<lparr>targetTimerRef := Some h\<rparr>)"

definition startGame :: "bool \<Rightarrow> level \<Rightarrow> state \<Rightarrow> state" where
  "startGame ga l s =
     (let s1 = s\<lparr>score := 0\<rparr>;
          s2 = s1\<lparr>misses := 0\<rparr>;
          s3 = s2\<lparr>timeLeft := 30\<rparr>;
          s4 = s3\<lparr>targets := []\<rparr>;
          s5 = s4\<lparr>gameActive := True\<rparr>;
          (h, s6) = setInterval GameTick 1000 s5;
          s7 = s6\<lparr>gameTimerRef := Some h\<rparr>
      in spawnTargets ga l s7)"

text \<open>The callback of the round clock: \<open>setTimeLeft(prev => ...)\<close>, whose updater calls
  \<open>endGame()\<close> and returns 0 when \<open>prev <= 1\<close>.\<close>

definition gameTick :: "state \<Rightarrow> state" where
  "gameTick s =
     (if timeLeft s \<le> 1 then (endGame s)\<lparr>timeLeft := 0\<rparr>
      else s\<lparr>timeLeft := timeLeft s - 1\<rparr>)"

text \<open>The callback of the spawner. \<open>arena\<close> is \<open>arenaRef.current\<close>: \<open>None\<close> for
  \<open>null\<close>, otherwise width and height of its bounding rectangle.\<close>

definition spawnTick ::
  "bool \<Rightarrow> settings \<Rightarrow> (real \<times> real) option \<Rightarrow> real \<Rightarrow> real \<Rightarrow> state \<Rightarrow> state" where
  "spawnTick ga st arena r1 r2 s =
     (case arena of
        None \<Rightarrow> s
      | Some (w, h) \<Rightarrow>
          (let newTarget = \<lparr>target_id = clock s,
                            target_x = r1 * (w - targetSize st),
                            target_y = r2 * (h - targetSize st),
                            target_active = True,
                            target_hit = False\<rparr>;
               s1 = s\<lparr>targets := targets s @ [newTarget]\<rparr>
           in setTimeout (Expire (target_id newTarget) ga) (targetDuration st) s1))"

text \<open>The expiry callback of the target \<open>i\<close>, created in a render with
  \<open>gameActive = ga\<close>.\<close>

definition expireTarget :: "nat \<Rightarrow> bool \<Rightarrow> state \<Rightarrow> state" where
  "expireTarget i ga s =
     (let s1 = s\<lparr>targets := filter (\<lambda>t. target_id t \<noteq> i) (targets s)\<rparr>
      in if ga then s1\<lparr>misses := misses s1 + 1\<rparr> else s1)"

definition hitTarget :: "nat \<Rightarrow> state \<Rightarrow> state" where
  "hitTarget targetId s =
     (let s1 = s\<lparr>targets :=
                  map (\<lambda>t. if target_id t = targetId then t\<lparr>target_hit := True\<rparr> else t)
                    (targets s)\<rparr>;
          s2 = s1\<lparr>score := score s1 + 1\<rparr>
      in setTimeout (Remove targetId) 200 s2)"

text \<open>The callback that \<open>hitTarget\<close> schedules.\<close>

definition removeTarget :: "nat \<Rightarrow> state \<Rightarrow> state" where
  "removeTarget targetId s =
     s\<lparr>targets := filter (\<lambda>t. target_id t \<noteq> targetId) (targets s)\<rparr>"

text \<open>\<open>handleArenaClick\<close> of a render with \<open>gameActive = ga\<close>.\<close>

definition handleArenaClick :: "bool \<Rightarrow> state \<Rightarrow> state" where
  "handleArenaClick ga s = (if ga then s\<lparr>misses := misses s + 1\<rparr> else s)"

text \<open>The \<open>onClick\<close> of a target's button; \<open>t\<close> is the target as the render drew it.
  (\<open>e.stopPropagation()\<close> keeps the click from reaching the arena's handler.)\<close>

definition onClickTarget :: "target \<Rightarrow> state \<Rightarrow> state" where
  "onClickTarget t s = (if \<not> target_hit t then hitTarget (target_id t) s else s)"

definition setDifficulty :: "level \<Rightarrow> state \<Rightarrow> state" where
  "setDifficulty l s = s\<lparr>difficulty := l\<rparr>"

subsection \<open>The event loop\<close>

text \<open>
  One event at a time; React commits the state a handler leaves before the next event, so
  a click always runs the handler of a render that shows the current state:
  \<^item> the start button and the difficulty buttons exist only while \<open>gameActive\<close> is false;
  \<^item> the arena (and \<open>arenaRef.current\<close>) and one button per element of \<open>targets\<close> exist
    only while \<open>gameActive\<close> is true.
  An event that cannot happen in the state gives \<open>None\<close>.
\<close>

datatype event =
    Elapse nat
  | ClickStart
  | ClickDifficulty level
  | ClickArena
  | ClickTarget nat
  | FireInterval nat env
  | FireTimeout nat

definition valid_env :: "env \<Rightarrow> bool" where
  "valid_env e \<longleftrightarrow>
     0 \<le> arenaWidth e \<and> 0 \<le> arenaHeight e \<and>
     0 \<le> random1 e \<and> random1 e < 1 \<and> 0 \<le> random2 e \<and> random2 e < 1"

definition arenaRef :: "env \<Rightarrow> state \<Rightarrow> (real \<times> real) option" where
  "arenaRef e s = (if gameActive s then Some (arenaWidth e, arenaHeight e) else None)"

definition reschedule :: "nat \<Rightarrow> state \<Rightarrow> state" where
  "reschedule h s =
     s\<lparr>intervals :=
         map (\<lambda>iv. if iv_id iv = h then iv\<lparr>iv_due := clock s + iv_period iv\<rparr> else iv)
           (intervals s)\<rparr>"

definition runInterval :: "interval_cb \<Rightarrow> env \<Rightarrow> state \<Rightarrow> state" where
  "runInterval cb e s =
     (case cb of
        GameTick \<Rightarrow> gameTick s
      | SpawnTick ga st \<Rightarrow> spawnTick ga st (arenaRef e s) (random1 e) (random2 e) s)"

definition runTimeout :: "timeout_cb \<Rightarrow> state \<Rightarrow> state" where
  "runTimeout cb s =
     (case cb of
        Expire i ga \<Rightarrow> expireTarget i ga s
      | Remove i \<Rightarrow> removeTarget i s)"

definition step :: "event \<Rightarrow> state \<Rightarrow> state option" where
  "step ev s =
     (case ev of
        Elapse d \<Rightarrow> Some (s\<lparr>clock := clock s + d\<rparr>)
      | ClickStart \<Rightarrow>
          if gameActive s then None
          else Some (startGame (gameActive s) (difficulty s) s)
      | ClickDifficulty l \<Rightarrow>
          if gameActive s then None else Some (setDifficulty l s)
      | ClickArena \<Rightarrow>
          if gameActive s then Some (handleArenaClick (gameActive s) s) else None
      | ClickTarget i \<Rightarrow>
          if gameActive s then
            (case find (\<lambda>t. target_id t = i) (targets s) of
               None \<Rightarrow> None
             | Some t \<Rightarrow> Some (onClickTarget t s))
          else None
      | FireInterval h e \<Rightarrow>
          (case find (\<lambda>iv. iv_id iv = h) (intervals s) of
             None \<Rightarrow> None
           | Some iv \<Rightarrow>
               if iv_due iv \<le> clock s \<and> valid_env e
               then Some (runInterval (iv_cb iv) e (reschedule h s))
               else None)
      | FireTimeout h \<Rightarrow>
          (case find (\<lambda>t. to_id t = h) (timeouts s) of
             None \<Rightarrow> None
           | Some t \<Rightarrow>
               if to_due t \<le> clock s
               then Some (runTimeout (to_cb t)
                            (s\<lparr>timeouts := filter (\<lambda>u. to_id u \<noteq> h) (timeouts s)\<rparr>))
               else None))"

fun run :: "event list \<Rightarrow> state \<Rightarrow> state option" where
  "run [] s = Some s"
| "run (ev # evs) s = (case step ev s of None \<Rightarrow> None | Some s' \<Rightarrow> run evs s')"

text \<open>The state after the first render, the page loaded at time \<open>t0\<close>.\<close>

definition init :: "nat \<Rightarrow> state" where
  "init t0 =
     \<lparr>targets = [], score = 0, misses = 0, gameActive = False, timeLeft = 30,
      difficulty = Medium, gameTimerRef = None, targetTimerRef = None,
      intervals = [], timeouts = [], nextTimer = 1, clock = t0\<rparr>"

inductive reachable :: "state \<Rightarrow> bool" where
  reachable_init: "reachable (init t0)"
| reachable_step: "reachable s \<Longrightarrow> step ev s = Some s' \<Longrightarrow> reachable s'"

subsection \<open>Invariants of the reachable states\<close>

text \<open>The target a timeout callback is about, and the \<open>gameActive\<close> a callback's closure
  captured (the callbacks that read none count as \<open>False\<close>).\<close>

fun cb_target :: "timeout_cb \<Rightarrow> nat" where
  "cb_target (Expire i ga) = i"
| "cb_target (Remove i) = i"

fun spawn_captured :: "interval_cb \<Rightarrow> bool" where
  "spawn_captured GameTick = False"
| "spawn_captured (SpawnTick ga st) = ga"

fun expire_captured :: "timeout_cb \<Rightarrow> bool" where
  "expire_captured (Expire i ga) = ga"
| "expire_captured (Remove i) = False"

definition inv_timers :: "state \<Rightarrow> bool" where
  "inv_timers s \<longleftrightarrow>
     (\<forall>iv\<in>set (intervals s). iv_id iv < nextTimer s \<and> \<not> spawn_captured (iv_cb iv) \<and>
        (if iv_cb iv = GameTick then gameTimerRef s = Some (iv_id iv)
         else targetTimerRef s = Some (iv_id iv) \<and> 0 < iv_period iv)) \<and>
     (\<forall>u\<in>set (timeouts s). to_id u < nextTimer s \<and> \<not> expire_captured (to_cb u)) \<and>
     (\<not> gameActive s \<longrightarrow> intervals s = [])"

definition inv_ids :: "state \<Rightarrow> bool" where
  "inv_ids s \<longleftrightarrow>
     distinct (map target_id (targets s)) \<and>
     (\<forall>t\<in>set (targets s). target_id t \<le> clock s) \<and>
     (\<forall>u\<in>set (timeouts s). cb_target (to_cb u) \<le> clock s) \<and>
     (\<forall>iv\<in>set (intervals s). iv_cb iv \<noteq> GameTick \<longrightarrow>
        (\<forall>t\<in>set (targets s). target_id t < iv_due iv)) \<and>
     (\<not> gameActive s \<longrightarrow> targets s = [])"

definition inv :: "state \<Rightarrow> bool" where
  "inv s \<longleftrightarrow> inv_timers s \<and> inv_ids s \<and> (gameActive s \<longrightarrow> 1 \<le> timeLeft s)"

text \<open>After the spawner's interval has fired and been rescheduled, every spawner interval is
  due in the future and every live target is older than the present.\<close>

definition spawn_ready :: "state \<Rightarrow> bool" where
  "spawn_ready s \<longleftrightarrow>
     (\<forall>iv\<in>set (intervals s). iv_cb iv \<noteq> GameTick \<longrightarrow> clock s < iv_due iv) \<and>
     (\<forall>t\<in>set (targets s). target_id t < clock s)"

text \<open>\<open>past_id i\<close>: the clock has reached \<open>i\<close> and every spawner interval is due after
  \<open>i\<close>, so no later spawner tick reads \<open>Date.now() = i\<close>.\<close>

definition past_id :: "nat \<Rightarrow> state \<Rightarrow> bool" where
  "past_id i s \<longleftrightarrow>
     i \<le> clock s \<and> (\<forall>iv\<in>set (intervals s). iv_cb iv \<noteq> GameTick \<longrightarrow> i < iv_due iv)"

text \<open>\<open>lookup i\<close>: the target with id \<open>i\<close> as the current render draws it, if there
  is one.\<close>

definition lookup :: "nat \<Rightarrow> state \<Rightarrow> target option" where
  "lookup i s = find (\<lambda>t. target_id t = i) (targets s)"

text \<open>\<open>created_before n c\<close>, for a moment at which the next timer handle was \<open>n\<close> and
  the clock read \<open>c\<close>: no interval older than that moment is left, and every timeout
  older than it is about a target that had been spawned by then.\<close>

definition created_before :: "nat \<Rightarrow> nat \<Rightarrow> state \<Rightarrow> bool" where
  "created_before n c s \<longleftrightarrow>
     n \<le> nextTimer s \<and>
     (\<forall>iv\<in>set (intervals s). n \<le> iv_id iv) \<and>
     (\<forall>u\<in>set (timeouts s). to_id u < n \<longrightarrow> cb_target (to_cb u) \<le> c)"

subsection \<open>Sample inputs\<close>

text \<open>
  The runs evaluated below: a round at medium difficulty, started at time 0 in an arena of
  300 by 500 pixels. The round clock holds timer handle 1 and the spawner handle 2; the
  spawner fires at 1200 and at 2400. \<open>playing\<close> is a state of that round, \<open>waiting k\<close>
  the state after \<open>k\<close> ticks of the round clock in which the spawner has not fired yet,
  \<open>round_over\<close> the state the thirtieth tick leaves when one target was spawned at 29500,
  and \<open>next_round\<close> a state of the round started after that.
\<close>

abbreviation medium :: settings where
  "medium \<equiv> \<lparr>targetDuration = 1500, spawnInterval = 1200, targetSize = 60\<rparr>"

abbreviation arena :: env where
  "arena \<equiv> \<lparr>arenaWidth = 300, arenaHeight = 500, random1 = 1/2, random2 = 1/4\<rparr>"

abbreviation arena2 :: env where
  "arena2 \<equiv> \<lparr>arenaWidth = 300, arenaHeight = 500, random1 = 3/4, random2 = 1/2\<rparr>"

abbreviation first_target :: "bool \<Rightarrow> target" where
  "first_target h \<equiv>
     \<lparr>target_id = 1200, target_x = 120, target_y = 110, target_active = True, target_hit = h\<rparr>"

abbreviation second_target :: target where
  "second_target \<equiv>
     \<lparr>target_id = 2400, target_x = 180, target_y = 220, target_active = True,
      target_hit = False\<rparr>"

abbreviation timers :: "nat \<Rightarrow> nat \<Rightarrow> interval list" where
  "timers d1 d2 \<equiv>
     [\<lparr>iv_id = 1, iv_period = 1000, iv_due = d1, iv_cb = GameTick\<rparr>,
      \<lparr>iv_id = 2, iv_period = 1200, iv_due = d2, iv_cb = SpawnTick False medium\<rparr>]"

abbreviation playing ::
  "target list \<Rightarrow> int \<Rightarrow> int \<Rightarrow> interval list \<Rightarrow> timeout list \<Rightarrow> nat \<Rightarrow> nat \<Rightarrow> state" where
  "playing ts sc left ivs tos nt now \<equiv>
     \<lparr>targets = ts, score = sc, misses = 0, gameActive = True, timeLeft = left,
      difficulty = Medium, gameTimerRef = Some 1, targetTimerRef = Some 2,
      intervals = ivs, timeouts = tos, nextTimer = nt, clock = now\<rparr>"

text \<open>The first target of the round: \<open>spawned\<close> before anyone taps it, \<open>tapped\<close>
  after its tap at 1300, \<open>removed\<close> after the removal at 1500 that the tap scheduled, and
  \<open>respawned\<close> when the second target is there and the expiry of the first is still
  pending.\<close>

abbreviation expiry1 :: timeout where
  "expiry1 \<equiv> \<lparr>to_id = 3, to_due = 2700, to_cb = Expire 1200 False\<rparr>"

abbreviation spawned :: "nat \<Rightarrow> state" where
  "spawned now \<equiv> playing [first_target False] 0 29 (timers 2000 2400) [expiry1] 4 now"

abbreviation tapped :: "nat \<Rightarrow> state" where
  "tapped now \<equiv>
     playing [first_target True] 1 29 (timers 2000 2400)
       [expiry1, \<lparr>to_id = 4, to_due = 1500, to_cb = Remove 1200\<rparr>] 5 now"

abbreviation removed :: state where
  "removed \<equiv> playing [] 1 29 (timers 2000 2400) [expiry1] 5 1500"

abbreviation respawned :: "timeout list \<Rightarrow> nat \<Rightarrow> state" where
  "respawned tos now \<equiv>
     playing [second_target] 1 28 (timers 3000 3600)
       (tos @ [\<lparr>to_id = 5, to_due = 3900, to_cb = Expire 2400 False\<rparr>]) 6 now"

abbreviation first_spawn :: "event list" where
  "first_spawn \<equiv>
     [ClickStart, Elapse 1000, FireInterval 1 arena, Elapse 200, FireInterval 2 arena]"

abbreviation second_spawn :: "event list" where
  "second_spawn \<equiv> [Elapse 800, FireInterval 1 arena, Elapse 400, FireInterval 2 arena2]"

abbreviation waiting :: "nat \<Rightarrow> state" where
  "waiting k \<equiv> playing [] 0 (30 - int k) (timers (1000 * k + 1000) 1200) [] 3 (1000 * k)"

abbreviation round_over :: state where
  "round_over \<equiv>
     \<lparr>targets = [], score = 0, misses = 0, gameActive = False, timeLeft = 0,
      difficulty = Medium, gameTimerRef = Some 1, targetTimerRef = Some 2, intervals = [],
      timeouts = [\<lparr>to_id = 3, to_due = 31000, to_cb = Expire 29500 False\<rparr>],
      nextTimer = 4, clock = 30000\<rparr>"

abbreviation next_round :: "timeout list \<Rightarrow> state" where
  "next_round tos \<equiv>
     \<lparr>targets = [\<lparr>target_id = 31200, target_x = 120, target_y = 110, target_active = True,
                  target_hit = False\<rparr>],
      score = 0, misses = 0, gameActive = True, timeLeft = 30, difficulty = Medium,
      gameTimerRef = Some 4, targetTimerRef = Some 5,
      intervals = [\<lparr>iv_id = 4, iv_period = 1000, iv_due = 31000, iv_cb = GameTick\<rparr>,
                   \<lparr>iv_id = 5, iv_period = 1200, iv_due = 32400,
                    iv_cb = SpawnTick False medium\<rparr>],
      timeouts = tos, nextTimer = 7, clock = 31200\<rparr>"

section \<open>Properties\<close>

subsection \<open>The invariants hold in every reachable state\<close>

lemma find_SomeD: "find P xs = Some x \<Longrightarrow> x \<in> set xs \<and> P x"
  by (induction xs) (auto split: if_splits)

lemmas handler_defs = startGame_def spawnTargets_def setInterval_def setTimeout_def
  clearInterval_def clearRef_def endGame_def gameTick_def spawnTick_def expireTarget_def
  hitTarget_def removeTarget_def handleArenaClick_def onClickTarget_def setDifficulty_def
  arenaRef_def reschedule_def runInterval_def runTimeout_def Let_def

lemma inv_init: "inv (init t0)"
  by (simp add: inv_def inv_timers_def inv_ids_def init_def)

lemma inv_timers_Elapse: "inv_timers s \<Longrightarrow> inv_timers (s\<lparr>clock := c\<rparr>)"
  by (simp add: inv_timers_def)

lemma inv_timers_startGame: "inv_timers s \<Longrightarrow> \<not> gameActive s \<Longrightarrow> inv_timers (startGame False l s)"
  by (cases l) (auto simp: inv_timers_def handler_defs difficultySettings_def less_Suc_eq)

lemma inv_timers_setDifficulty: "inv_timers s \<Longrightarrow> inv_timers (setDifficulty l s)"
  by (simp add: inv_timers_def setDifficulty_def)

lemma inv_timers_handleArenaClick: "inv_timers s \<Longrightarrow> inv_timers (handleArenaClick ga s)"
  by (simp add: inv_timers_def handleArenaClick_def)

lemma inv_timers_hitTarget: "inv_timers s \<Longrightarrow> inv_timers (hitTarget i s)"
  by (auto simp: inv_timers_def hitTarget_def setTimeout_def Let_def less_Suc_eq)

lemma inv_timers_onClickTarget: "inv_timers s \<Longrightarrow> inv_timers (onClickTarget t s)"
  by (simp add: onClickTarget_def inv_timers_hitTarget)

lemma inv_timers_reschedule: "inv_timers s \<Longrightarrow> inv_timers (reschedule h s)"
  by (auto simp: inv_timers_def reschedule_def)

lemma intervals_endGame: "inv_timers s \<Longrightarrow> intervals (endGame s) = []"
  by (auto simp: inv_timers_def endGame_def clearRef_def clearInterval_def Let_def filter_empty_conv
        split: option.splits if_splits)

lemma inv_timers_endGame: "inv_timers s \<Longrightarrow> inv_timers (endGame s)"
  using intervals_endGame[of s]
  by (auto simp: inv_timers_def endGame_def clearRef_def clearInterval_def Let_def
        split: option.splits)

lemma inv_timers_timeLeft: "inv_timers s \<Longrightarrow> inv_timers (s\<lparr>timeLeft := k\<rparr>)"
  by (simp add: inv_timers_def)

lemma inv_timers_gameTick: "inv_timers s \<Longrightarrow> inv_timers (gameTick s)"
  by (simp add: gameTick_def inv_timers_endGame inv_timers_timeLeft)

lemma inv_timers_spawnTick: "inv_timers s \<Longrightarrow> inv_timers (spawnTick False st a r1 r2 s)"
  by (auto simp: inv_timers_def spawnTick_def setTimeout_def Let_def less_Suc_eq
        split: option.splits)

lemma inv_timers_drop_timeout:
  "inv_timers s \<Longrightarrow> inv_timers (s\<lparr>timeouts := filter P (timeouts s)\<rparr>)"
  by (auto simp: inv_timers_def)

lemma inv_timers_expireTarget: "inv_timers s \<Longrightarrow> inv_timers (expireTarget i False s)"
  by (simp add: inv_timers_def expireTarget_def)

lemma inv_timers_removeTarget: "inv_timers s \<Longrightarrow> inv_timers (removeTarget i s)"
  by (simp add: inv_timers_def removeTarget_def)

lemma inv_timers_step: "inv_timers s \<Longrightarrow> step ev s = Some s' \<Longrightarrow> inv_timers s'"
proof (cases ev)
  case (Elapse d)
  assume "inv_timers s" "step ev s = Some s'"
  with Elapse show ?thesis by (auto simp: step_def inv_timers_Elapse)
next
  case ClickStart
  assume "inv_timers s" "step ev s = Some s'"
  with ClickStart show ?thesis
    by (auto simp: step_def inv_timers_startGame split: if_splits)
next
  case (ClickDifficulty l)
  assume "inv_timers s" "step ev s = Some s'"
  with ClickDifficulty show ?thesis
    by (auto simp: step_def inv_timers_setDifficulty split: if_splits)
next
  case ClickArena
  assume "inv_timers s" "step ev s = Some s'"
  with ClickArena show ?thesis
    by (auto simp: step_def inv_timers_handleArenaClick split: if_splits)
next
  case (ClickTarget i)
  assume "inv_timers s" "step ev s = Some s'"
  with ClickTarget show ?thesis
    by (auto simp: step_def inv_timers_onClickTarget split: if_splits option.splits)
next
  case (FireInterval h e)
  assume I: "inv_timers s" and S: "step ev s = Some s'"
  from S FireInterval obtain iv where
    f: "find (\<lambda>iv. iv_id iv = h) (intervals s) = Some iv" and
    s': "s' = runInterval (iv_cb iv) e (reschedule h s)"
    by (auto simp: step_def split: option.splits if_splits)
  from f have "iv \<in> set (intervals s)" by (simp add: find_SomeD)
  with I have nc: "\<not> spawn_captured (iv_cb iv)" by (simp add: inv_timers_def)
  have R: "inv_timers (reschedule h s)" using I by (rule inv_timers_reschedule)
  show ?thesis
  proof (cases "iv_cb iv")
    case GameTick
    with s' R show ?thesis by (simp add: runInterval_def inv_timers_gameTick)
  next
    case (SpawnTick ga st)
    with nc have "\<not> ga" by simp
    with SpawnTick s' R show ?thesis by (simp add: runInterval_def inv_timers_spawnTick)
  qed
next
  case (FireTimeout h)
  assume I: "inv_timers s" and S: "step ev s = Some s'"
  from S FireTimeout obtain u where
    f: "find (\<lambda>t. to_id t = h) (timeouts s) = Some u" and
    s': "s' = runTimeout (to_cb u) (s\<lparr>timeouts := filter (\<lambda>u. to_id u \<noteq> h) (timeouts s)\<rparr>)"
    by (auto simp: step_def split: option.splits if_splits)
  from f have "u \<in> set (timeouts s)" by (simp add: find_SomeD)
  with I have nc: "\<not> expire_captured (to_cb u)" by (simp add: inv_timers_def)
  have R: "inv_timers (s\<lparr>timeouts := filter (\<lambda>u. to_id u \<noteq> h) (timeouts s)\<rparr>)"
    using I by (rule inv_timers_drop_timeout)
  show ?thesis
  proof (cases "to_cb u")
    case (Expire i ga)
    with nc have "\<not> ga" by simp
    with Expire s' R show ?thesis by (simp add: runTimeout_def inv_timers_expireTarget)
  next
    case (Remove i)
    with s' R show ?thesis by (simp add: runTimeout_def inv_timers_removeTarget)
  qed
qed

lemma target_id_hit [simp]:
  "target_id \<circ> (\<lambda>t. if target_id t = i then t\<lparr>target_hit := True\<rparr> else t) = target_id"
  by (auto simp: fun_eq_iff)

lemma inv_ids_Elapse: "inv_ids s \<Longrightarrow> inv_ids (s\<lparr>clock := clock s + d\<rparr>)"
  by (auto simp: inv_ids_def intro: le_trans trans_le_add1)

lemma inv_ids_startGame: "inv_ids s \<Longrightarrow> inv_ids (startGame ga l s)"
  by (auto simp: inv_ids_def handler_defs)

lemma inv_ids_setDifficulty: "inv_ids s \<Longrightarrow> inv_ids (setDifficulty l s)"
  by (simp add: inv_ids_def setDifficulty_def)

lemma inv_ids_handleArenaClick: "inv_ids s \<Longrightarrow> inv_ids (handleArenaClick ga s)"
  by (simp add: inv_ids_def handleArenaClick_def)

lemma inv_ids_hitTarget: "inv_ids s \<Longrightarrow> i \<le> clock s \<Longrightarrow> inv_ids (hitTarget i s)"
  by (auto simp: inv_ids_def hitTarget_def setTimeout_def Let_def)

lemma inv_ids_onClickTarget:
  "inv_ids s \<Longrightarrow> t \<in> set (targets s) \<Longrightarrow> inv_ids (onClickTarget t s)"
proof -
  assume I: "inv_ids s" and m: "t \<in> set (targets s)"
  then have "target_id t \<le> clock s" by (simp add: inv_ids_def)
  with I show ?thesis by (simp add: onClickTarget_def inv_ids_hitTarget)
qed

lemma inv_ids_endGame: "inv_ids s \<Longrightarrow> inv_ids (endGame s)"
  by (auto simp: inv_ids_def endGame_def clearRef_def clearInterval_def Let_def
        split: option.splits)

lemma inv_ids_timeLeft: "inv_ids s \<Longrightarrow> inv_ids (s\<lparr>timeLeft := k\<rparr>)"
  by (simp add: inv_ids_def)

lemma inv_ids_gameTick: "inv_ids s \<Longrightarrow> inv_ids (gameTick s)"
  by (simp add: gameTick_def inv_ids_endGame inv_ids_timeLeft)

lemma inv_ids_reschedule: "inv_timers s \<Longrightarrow> inv_ids s \<Longrightarrow> inv_ids (reschedule h s)"
  by (fastforce simp: inv_ids_def inv_timers_def reschedule_def)

lemma spawn_ready_reschedule:
  assumes "inv_timers s" "inv_ids s" "iv \<in> set (intervals s)" "iv_cb iv \<noteq> GameTick"
    "iv_due iv \<le> clock s"
  shows "spawn_ready (reschedule (iv_id iv) s)"
proof -
  have a: "\<forall>t\<in>set (targets s). target_id t < clock s"
  proof
    fix t assume "t \<in> set (targets s)"
    with assms(2,3,4) have "target_id t < iv_due iv" by (simp add: inv_ids_def)
    with assms(5) show "target_id t < clock s" by simp
  qed
  have r: "targetTimerRef s = Some (iv_id iv)"
    using assms(1,3,4) by (simp add: inv_timers_def)
  have b: "\<forall>iv'\<in>set (intervals s). iv_cb iv' \<noteq> GameTick \<longrightarrow> iv_id iv' = iv_id iv \<and> 0 < iv_period iv'"
  proof (intro ballI impI)
    fix iv' assume "iv' \<in> set (intervals s)" "iv_cb iv' \<noteq> GameTick"
    with assms(1) have "targetTimerRef s = Some (iv_id iv') \<and> 0 < iv_period iv'"
      by (simp add: inv_timers_def)
    with r show "iv_id iv' = iv_id iv \<and> 0 < iv_period iv'" by simp
  qed
  show ?thesis using a b by (auto simp: spawn_ready_def reschedule_def)
qed

lemma inv_ids_spawnTick:
  "inv_ids s \<Longrightarrow> spawn_ready s \<Longrightarrow> inv_ids (spawnTick ga st (arenaRef e s) r1 r2 s)"
  by (auto simp: inv_ids_def spawn_ready_def spawnTick_def arenaRef_def setTimeout_def Let_def
        split: option.splits)

lemma inv_ids_drop_timeout:
  "inv_ids s \<Longrightarrow> inv_ids (s\<lparr>timeouts := filter P (timeouts s)\<rparr>)"
  by (auto simp: inv_ids_def)

lemma inv_ids_expireTarget: "inv_ids s \<Longrightarrow> inv_ids (expireTarget i ga s)"
  by (auto simp: inv_ids_def expireTarget_def Let_def distinct_map_filter)

lemma inv_ids_removeTarget: "inv_ids s \<Longrightarrow> inv_ids (removeTarget i s)"
  by (auto simp: inv_ids_def removeTarget_def distinct_map_filter)

lemma inv_ids_step:
  assumes T: "inv_timers s" and I: "inv_ids s" and S: "step ev s = Some s'"
  shows "inv_ids s'"
proof (cases ev)
  case (Elapse d)
  with I S show ?thesis by (auto simp: step_def inv_ids_Elapse)
next
  case ClickStart
  with I S show ?thesis by (auto simp: step_def inv_ids_startGame split: if_splits)
next
  case (ClickDifficulty l)
  with I S show ?thesis by (auto simp: step_def inv_ids_setDifficulty split: if_splits)
next
  case ClickArena
  with I S show ?thesis by (auto simp: step_def inv_ids_handleArenaClick split: if_splits)
next
  case (ClickTarget i)
  with I S show ?thesis
    by (auto simp: step_def inv_ids_onClickTarget split: if_splits option.splits
          dest: find_SomeD)
next
  case (FireInterval h e)
  from S FireInterval obtain iv where
    f: "find (\<lambda>iv. iv_id iv = h) (intervals s) = Some iv" and
    d: "iv_due iv \<le> clock s" and
    s': "s' = runInterval (iv_cb iv) e (reschedule h s)"
    by (auto simp: step_def split: option.splits if_splits)
  from find_SomeD[OF f] have m: "iv \<in> set (intervals s)" and h: "iv_id iv = h" by simp_all
  have R: "inv_ids (reschedule h s)" using T I by (rule inv_ids_reschedule)
  show ?thesis
  proof (cases "iv_cb iv")
    case GameTick
    with s' R show ?thesis by (simp add: runInterval_def inv_ids_gameTick)
  next
    case (SpawnTick ga st)
    then have "iv_cb iv \<noteq> GameTick" by simp
    from spawn_ready_reschedule[OF T I m this d] h have "spawn_ready (reschedule h s)" by simp
    with SpawnTick s' R show ?thesis by (simp add: runInterval_def inv_ids_spawnTick)
  qed
next
  case (FireTimeout h)
  from S FireTimeout obtain u :: timeout where
    s': "s' = runTimeout (to_cb u) (s\<lparr>timeouts := filter (\<lambda>u. to_id u \<noteq> h) (timeouts s)\<rparr>)"
    by (auto simp: step_def split: option.splits if_splits)
  have R: "inv_ids (s\<lparr>timeouts := filter (\<lambda>u. to_id u \<noteq> h) (timeouts s)\<rparr>)"
    using I by (rule inv_ids_drop_timeout)
  show ?thesis
    using s' R by (cases "to_cb u") (simp_all add: runTimeout_def inv_ids_expireTarget inv_ids_removeTarget)
qed

lemma timeLeft_step:
  assumes "gameActive s \<longrightarrow> 1 \<le> timeLeft s" and S: "step ev s = Some s'"
  shows "gameActive s' \<longrightarrow> 1 \<le> timeLeft s'"
proof (cases ev)
  case (FireInterval h e)
  from S FireInterval obtain iv :: interval where
    s': "s' = runInterval (iv_cb iv) e (reschedule h s)"
    by (auto simp: step_def split: option.splits if_splits)
  show ?thesis using assms(1) s'
    by (cases "iv_cb iv")
       (auto simp: runInterval_def reschedule_def gameTick_def endGame_def clearRef_def
          clearInterval_def spawnTick_def setTimeout_def Let_def split: option.splits)
next
  case (FireTimeout h)
  from S FireTimeout obtain u :: timeout where
    s': "s' = runTimeout (to_cb u) (s\<lparr>timeouts := filter (\<lambda>u. to_id u \<noteq> h) (timeouts s)\<rparr>)"
    by (auto simp: step_def split: option.splits if_splits)
  show ?thesis using assms(1) s'
    by (cases "to_cb u") (auto simp: runTimeout_def expireTarget_def removeTarget_def Let_def)
qed (use assms in \<open>auto simp: step_def handler_defs split: if_splits option.splits\<close>)

lemma inv_step: "inv s \<Longrightarrow> step ev s = Some s' \<Longrightarrow> inv s'"
  unfolding inv_def using inv_timers_step inv_ids_step timeLeft_step by blast

lemma reachable_inv: "reachable s \<Longrightarrow> inv s"
  by (induction rule: reachable.induct) (auto intro: inv_init inv_step)

lemma run_reachable: "reachable s \<Longrightarrow> run evs s = Some s' \<Longrightarrow> reachable s'"
  by (induction evs arbitrary: s) (auto split: option.splits intro: reachable_step)

lemma run_inv: "inv s \<Longrightarrow> run evs s = Some s' \<Longrightarrow> inv s'"
  by (induction evs arbitrary: s) (auto split: option.splits intro: inv_step)

subsection \<open>What the handlers do to the timers and targets\<close>

lemma filter_idem: "filter P (filter P xs) = filter P xs"
  by (induction xs) auto

lemma endGame_eq:
  "endGame s =
   s\<lparr>gameActive := False,
     intervals := filter (\<lambda>iv. Some (iv_id iv) \<noteq> gameTimerRef s \<and>
                               Some (iv_id iv) \<noteq> targetTimerRef s) (intervals s),
     targets := []\<rparr>"
  by (cases "gameTimerRef s"; cases "targetTimerRef s")
     (simp_all add: endGame_def clearRef_def clearInterval_def Let_def)

lemma endGame_twice: "endGame (endGame s) = endGame s"
  by (simp add: endGame_eq filter_idem del: filter_filter)

lemma endGame_inactive: "inv s \<Longrightarrow> \<not> gameActive s \<Longrightarrow> endGame s = s"
  by (simp add: inv_def inv_timers_def inv_ids_def endGame_eq)

lemma fired_timeout:
  assumes "step (FireTimeout h) s = Some s'"
  obtains u where "find (\<lambda>t. to_id t = h) (timeouts s) = Some u"
    "u \<in> set (timeouts s)" "to_id u = h" "to_due u \<le> clock s"
    "s' = runTimeout (to_cb u) (s\<lparr>timeouts := filter (\<lambda>u. to_id u \<noteq> h) (timeouts s)\<rparr>)"
proof -
  from assms obtain u where
    f: "find (\<lambda>t. to_id t = h) (timeouts s) = Some u" and d: "to_due u \<le> clock s" and
    s': "s' = runTimeout (to_cb u) (s\<lparr>timeouts := filter (\<lambda>u. to_id u \<noteq> h) (timeouts s)\<rparr>)"
    by (auto simp: step_def split: option.splits if_splits)
  from find_SomeD[OF f] have "u \<in> set (timeouts s)" "to_id u = h" by simp_all
  with f d s' that show ?thesis by blast
qed

lemma timeout_counters:
  assumes V: "inv s" and S: "step (FireTimeout h) s = Some s'"
  shows "misses s' = misses s \<and> score s' = score s"
proof -
  from S obtain u where u: "u \<in> set (timeouts s)" and
    s': "s' = runTimeout (to_cb u) (s\<lparr>timeouts := filter (\<lambda>u. to_id u \<noteq> h) (timeouts s)\<rparr>)"
    by (rule fired_timeout)
  from V u have nc: "\<not> expire_captured (to_cb u)" by (simp add: inv_def inv_timers_def)
  show ?thesis using s' nc
    by (cases "to_cb u") (simp_all add: runTimeout_def expireTarget_def removeTarget_def)
qed

lemma find_filter_out: "find (\<lambda>t. f t = i) (filter (\<lambda>t. f t \<noteq> i) ts) = None"
  by (induction ts) auto

lemma tap_counters: "step (ClickTarget i) s = Some s' \<Longrightarrow> misses s' = misses s"
  by (auto simp: step_def onClickTarget_def hitTarget_def setTimeout_def Let_def
        split: if_splits option.splits)

lemma targets_hitTarget:
  "targets (hitTarget j s) =
   map (\<lambda>t. if target_id t = j then t\<lparr>target_hit := True\<rparr> else t) (targets s)"
  by (simp add: hitTarget_def setTimeout_def Let_def)


lemma same_id_same_target:
  "distinct (map target_id ts) \<Longrightarrow> a \<in> set ts \<Longrightarrow> b \<in> set ts \<Longrightarrow>
   target_id a = target_id b \<Longrightarrow> a = b"
  by (meson distinct_map inj_onD)

subsection \<open>Target ids are never used twice\<close>

lemma spawnInterval_pos: "0 < spawnInterval (difficultySettings l)"
  by (cases l) (simp_all add: difficultySettings_def)

lemma past_id_step:
  assumes V: "inv s" and P: "past_id i s" and S: "step ev s = Some s'"
  shows "past_id i s'"
proof (cases ev)
  case (Elapse d)
  with P S show ?thesis by (auto simp: step_def past_id_def)
next
  case ClickStart
  with P S show ?thesis
    using spawnInterval_pos[of "difficulty s"]
    by (auto simp: step_def past_id_def startGame_def spawnTargets_def setInterval_def Let_def
          split: if_splits)
next
  case (ClickDifficulty l)
  with P S show ?thesis by (auto simp: step_def past_id_def setDifficulty_def split: if_splits)
next
  case ClickArena
  with P S show ?thesis by (auto simp: step_def past_id_def handleArenaClick_def split: if_splits)
next
  case (ClickTarget j)
  with P S show ?thesis
    by (auto simp: step_def past_id_def onClickTarget_def hitTarget_def setTimeout_def Let_def
          split: if_splits option.splits)
next
  case (FireInterval h e)
  from S FireInterval obtain iv :: interval where
    s': "s' = runInterval (iv_cb iv) e (reschedule h s)"
    by (auto simp: step_def split: option.splits if_splits)
  from V have per: "\<forall>iv\<in>set (intervals s). iv_cb iv \<noteq> GameTick \<longrightarrow> 0 < iv_period iv"
    by (simp add: inv_def inv_timers_def)
  have R: "past_id i (reschedule h s)"
    using P per by (fastforce simp: past_id_def reschedule_def)
  show ?thesis
  proof (cases "iv_cb iv")
    case GameTick
    with s' R show ?thesis
      by (auto simp: runInterval_def gameTick_def endGame_eq past_id_def)
  next
    case (SpawnTick ga st)
    with s' R show ?thesis
      by (auto simp: runInterval_def spawnTick_def setTimeout_def Let_def past_id_def
            split: option.splits)
  qed
next
  case (FireTimeout h)
  from S FireTimeout obtain u :: timeout where
    s': "s' = runTimeout (to_cb u) (s\<lparr>timeouts := filter (\<lambda>u. to_id u \<noteq> h) (timeouts s)\<rparr>)"
    by (auto simp: step_def split: option.splits if_splits)
  show ?thesis using P s'
    by (cases "to_cb u")
       (auto simp: runTimeout_def expireTarget_def removeTarget_def Let_def past_id_def)
qed

lemma hit_map_member:
  "t' \<in> set (map (\<lambda>t. if target_id t = j then t\<lparr>target_hit := True\<rparr> else t) ts) \<Longrightarrow>
   \<exists>t\<in>set ts. target_id t = target_id t' \<and> (target_hit t \<longrightarrow> target_hit t')"
  by (induction ts) (auto split: if_splits)

text \<open>A step adds no target with a past id: a target of the new state with such an id was
  there before, and if it was hit before it still is.\<close>

lemma no_new_target:
  assumes P: "past_id i s" and S: "step ev s = Some s'"
    and T: "t' \<in> set (targets s')" "target_id t' = i"
  shows "\<exists>t\<in>set (targets s). target_id t = i \<and> (target_hit t \<longrightarrow> target_hit t')"
proof (cases ev)
  case (Elapse d)
  with S T show ?thesis by (auto simp: step_def)
next
  case ClickStart
  with S T show ?thesis
    by (auto simp: step_def startGame_def spawnTargets_def setInterval_def Let_def
          split: if_splits)
next
  case (ClickDifficulty l)
  with S T show ?thesis by (auto simp: step_def setDifficulty_def split: if_splits)
next
  case ClickArena
  with S T show ?thesis by (auto simp: step_def handleArenaClick_def split: if_splits)
next
  case (ClickTarget j)
  with S obtain t where s': "s' = onClickTarget t s"
    by (auto simp: step_def split: if_splits option.splits)
  show ?thesis
  proof (cases "target_hit t")
    case True
    with s' T show ?thesis by (auto simp: onClickTarget_def)
  next
    case False
    with s' T(1) have "t' \<in> set (map (\<lambda>u. if target_id u = target_id t
                          then u\<lparr>target_hit := True\<rparr> else u) (targets s))"
      by (simp add: onClickTarget_def targets_hitTarget)
    from hit_map_member[OF this] T(2) show ?thesis by simp
  qed
next
  case (FireInterval h e)
  from S FireInterval obtain iv where
    f: "find (\<lambda>iv. iv_id iv = h) (intervals s) = Some iv" and
    d: "iv_due iv \<le> clock s" and
    s': "s' = runInterval (iv_cb iv) e (reschedule h s)"
    by (auto simp: step_def split: option.splits if_splits)
  from find_SomeD[OF f] have m: "iv \<in> set (intervals s)" by simp
  show ?thesis
  proof (cases "iv_cb iv")
    case GameTick
    with s' T show ?thesis
      by (auto simp: runInterval_def gameTick_def endGame_eq reschedule_def split: if_splits)
  next
    case (SpawnTick ga st)
    with P m have "i < iv_due iv" by (simp add: past_id_def)
    with d have "i < clock s" by simp
    with SpawnTick s' T show ?thesis
      by (auto simp: runInterval_def spawnTick_def setTimeout_def Let_def reschedule_def
            split: option.splits prod.splits)
  qed
next
  case (FireTimeout h)
  from S FireTimeout obtain u :: timeout where
    s': "s' = runTimeout (to_cb u) (s\<lparr>timeouts := filter (\<lambda>u. to_id u \<noteq> h) (timeouts s)\<rparr>)"
    by (auto simp: step_def split: option.splits if_splits)
  show ?thesis using T s'
    by (cases "to_cb u")
       (auto simp: runTimeout_def expireTarget_def removeTarget_def Let_def split: if_splits)
qed

lemma run_past_id: "inv s \<Longrightarrow> past_id i s \<Longrightarrow> run evs s = Some s' \<Longrightarrow> past_id i s'"
  by (induction evs arbitrary: s) (auto split: option.splits intro: inv_step past_id_step)

lemma run_no_new_target:
  "inv s \<Longrightarrow> past_id i s \<Longrightarrow> run evs s = Some s' \<Longrightarrow>
   t' \<in> set (targets s') \<Longrightarrow> target_id t' = i \<Longrightarrow>
   \<exists>t\<in>set (targets s). target_id t = i \<and> (target_hit t \<longrightarrow> target_hit t')"
proof (induction evs arbitrary: s)
  case Nil
  then show ?case by auto
next
  case (Cons ev evs)
  from Cons.prems(3) obtain s1 where
    a: "step ev s = Some s1" and b: "run evs s1 = Some s'"
    by (auto split: option.splits)
  have "inv s1" using Cons.prems(1) a by (rule inv_step)
  moreover have "past_id i s1" using Cons.prems(1,2) a by (rule past_id_step)
  ultimately obtain t1 where
    t1: "t1 \<in> set (targets s1)" "target_id t1 = i" "target_hit t1 \<longrightarrow> target_hit t'"
    using Cons.IH[OF _ _ b Cons.prems(4,5)] by blast
  from no_new_target[OF Cons.prems(2) a t1(1,2)] t1(3) show ?case by blast
qed

lemma live_past_id: "inv s \<Longrightarrow> t \<in> set (targets s) \<Longrightarrow> past_id (target_id t) s"
  by (simp add: inv_def inv_ids_def past_id_def)

lemma absent_run:
  assumes V: "inv s" and P: "past_id i s" and A: "\<forall>t\<in>set (targets s). target_id t \<noteq> i"
    and E: "run evs s = Some s'"
  shows "\<forall>t\<in>set (targets s'). target_id t \<noteq> i"
proof
  fix t' assume m: "t' \<in> set (targets s')"
  show "target_id t' \<noteq> i"
  proof
    assume "target_id t' = i"
    from run_no_new_target[OF V P E m this] A show False by blast
  qed
qed

subsection \<open>Timers older than the end of a round\<close>

lemma created_before_step:
  assumes C: "created_before n c s" and S: "step ev s = Some s'"
  shows "created_before n c s'"
proof (cases ev)
  case (Elapse d)
  with C S show ?thesis by (auto simp: step_def created_before_def)
next
  case ClickStart
  with C S show ?thesis
    by (auto simp: step_def created_before_def startGame_def spawnTargets_def setInterval_def
          Let_def split: if_splits)
next
  case (ClickDifficulty l)
  with C S show ?thesis
    by (auto simp: step_def created_before_def setDifficulty_def split: if_splits)
next
  case ClickArena
  with C S show ?thesis
    by (auto simp: step_def created_before_def handleArenaClick_def split: if_splits)
next
  case (ClickTarget j)
  with C S show ?thesis
    by (auto simp: step_def created_before_def onClickTarget_def hitTarget_def setTimeout_def
          Let_def split: if_splits option.splits)
next
  case (FireInterval h e)
  from S FireInterval obtain iv :: interval where
    s': "s' = runInterval (iv_cb iv) e (reschedule h s)"
    by (auto simp: step_def split: option.splits if_splits)
  have R: "created_before n c (reschedule h s)"
    using C by (auto simp: created_before_def reschedule_def)
  show ?thesis
  proof (cases "iv_cb iv")
    case GameTick
    with s' R show ?thesis
      by (auto simp: runInterval_def gameTick_def endGame_eq created_before_def)
  next
    case (SpawnTick ga st)
    with s' R show ?thesis
      by (auto simp: runInterval_def spawnTick_def setTimeout_def Let_def created_before_def
            split: option.splits)
  qed
next
  case (FireTimeout h)
  from S FireTimeout obtain u :: timeout where
    s': "s' = runTimeout (to_cb u) (s\<lparr>timeouts := filter (\<lambda>u. to_id u \<noteq> h) (timeouts s)\<rparr>)"
    by (auto simp: step_def split: option.splits if_splits)
  show ?thesis using C s'
    by (cases "to_cb u")
       (auto simp: runTimeout_def expireTarget_def removeTarget_def Let_def created_before_def)
qed

lemma run_created_before:
  "created_before n c s \<Longrightarrow> run evs s = Some s' \<Longrightarrow> created_before n c s'"
  by (induction evs arbitrary: s) (auto split: option.splits intro: created_before_step)

lemma created_before_inactive:
  "inv s \<Longrightarrow> \<not> gameActive s \<Longrightarrow> created_before (nextTimer s) (clock s) s"
  by (simp add: inv_def inv_timers_def inv_ids_def created_before_def)

lemma find_None_above:
  "\<forall>iv\<in>set ivs. n \<le> iv_id iv \<Longrightarrow> h < n \<Longrightarrow> find (\<lambda>iv. iv_id iv = h) ivs = None"
  by (induction ivs) auto

subsection \<open>Sample runs\<close>

lemmas evals = step_def init_def startGame_def spawnTargets_def setInterval_def setTimeout_def
  clearInterval_def clearRef_def endGame_def gameTick_def spawnTick_def expireTarget_def
  hitTarget_def removeTarget_def handleArenaClick_def onClickTarget_def setDifficulty_def
  valid_env_def arenaRef_def reschedule_def runInterval_def runTimeout_def
  difficultySettings_def Let_def

lemma run_append: "run (xs @ ys) s = (case run xs s of None \<Rightarrow> None | Some s' \<Rightarrow> run ys s')"
  by (induction xs arbitrary: s) (auto split: option.splits)

lemma run_first_spawn: "run first_spawn (init 0) = Some (spawned 1200)"
  by (simp add: evals)

lemma run_second_spawn:
  "run second_spawn (spawned 1200) =
   Some (playing [first_target False, second_target] 0 28 (timers 3000 3600)
           [expiry1, \<lparr>to_id = 4, to_due = 3900, to_cb = Expire 2400 False\<rparr>] 5 2400)"
  by (simp add: evals)

lemma waiting_tick:
  "k < 29 \<Longrightarrow> run [Elapse 1000, FireInterval 1 arena] (waiting k) = Some (waiting (Suc k))"
  by (simp add: evals)

lemma waiting_reachable: "k \<le> 29 \<Longrightarrow> reachable (waiting k)"
proof (induction k)
  case 0
  have "step ClickStart (init 0) = Some (waiting 0)" by (simp add: evals)
  with reachable_init[of 0] show ?case by (rule reachable_step)
next
  case (Suc k)
  then have "reachable (waiting k)" "k < 29" by simp_all
  with waiting_tick[of k] show ?case by (blast intro: run_reachable)
qed

lemma run_round_over:
  "run [Elapse 500, FireInterval 2 arena, Elapse 500, FireInterval 1 arena] (waiting 29) =
   Some round_over"
  by (simp add: evals)

lemma round_over_reachable: "reachable round_over"
proof -
  have "reachable (waiting 29)" by (rule waiting_reachable) simp
  then show ?thesis using run_round_over by (rule run_reachable)
qed

lemma first_spawn_reachable: "reachable (spawned 1200)"
  using reachable_init[of 0] run_first_spawn by (rule run_reachable)

subsection \<open>Starting a round\<close>

text \<open>
  C5. Whatever the state before (and so whatever state the previous round ended in), and
  whatever the closure of \<open>startGame\<close> captured, \<open>startGame\<close> leaves \<open>score = 0\<close>,
  \<open>misses = 0\<close>, \<open>timeLeft = 30\<close>, no live target, and the round active.
\<close>

theorem startGame_resets:
  "score (startGame ga l s) = 0 \<and> misses (startGame ga l s) = 0 \<and>
   timeLeft (startGame ga l s) = 30 \<and> targets (startGame ga l s) = [] \<and>
   gameActive (startGame ga l s)"
  by (simp add: startGame_def spawnTargets_def setInterval_def Let_def)

subsection \<open>The round clock\<close>

text \<open>
  C6. In every reachable state an active round has \<open>timeLeft \<ge> 1\<close>: no state has
  \<open>timeLeft = 0\<close> with the round still active. And a tick of the round clock that leaves
  \<open>timeLeft = 0\<close> has ended the round in the same step.
\<close>

theorem active_timeLeft_positive:
  "reachable s \<Longrightarrow>
     (gameActive s \<longrightarrow> 1 \<le> timeLeft s) \<and>
     (timeLeft (gameTick s) = 0 \<longrightarrow> \<not> gameActive (gameTick s))"
proof -
  assume "reachable s"
  then have "inv s" by (rule reachable_inv)
  then have a: "gameActive s \<longrightarrow> 1 \<le> timeLeft s" by (simp add: inv_def)
  have b: "timeLeft (gameTick s) = 0 \<longrightarrow> \<not> gameActive (gameTick s)"
    by (auto simp: gameTick_def endGame_def clearRef_def clearInterval_def Let_def
          split: option.splits)
  from a b show ?thesis by simp
qed

text \<open>Checked on the state after 29 ticks, where \<open>timeLeft = 1\<close> and the next tick
  ends the round.\<close>

theorem active_timeLeft_positive_witness:
  "reachable (waiting 29) \<and> gameActive (waiting 29) \<and> 1 \<le> timeLeft (waiting 29) \<and>
   timeLeft (gameTick (waiting 29)) = 0 \<and> \<not> gameActive (gameTick (waiting 29))"
proof -
  have r: "reachable (waiting 29)" by (rule waiting_reachable) simp
  have a: "gameActive (waiting 29)" by simp
  have t: "timeLeft (gameTick (waiting 29)) = 0" by (simp add: evals)
  from active_timeLeft_positive[OF r] a t r show ?thesis by simp
qed

subsection \<open>Taps on the arena background\<close>

text \<open>
  C8. The arena's click handler, in a render that shows the current state: when the round
  is active it adds exactly 1 to \<open>misses\<close> and leaves \<open>score\<close> and the live targets
  alone; when the round is inactive it changes nothing at all.
\<close>

theorem handleArenaClick_counts:
  "(gameActive s \<longrightarrow>
      misses (handleArenaClick (gameActive s) s) = misses s + 1 \<and>
      score (handleArenaClick (gameActive s) s) = score s \<and>
      targets (handleArenaClick (gameActive s) s) = targets s) \<and>
   (\<not> gameActive s \<longrightarrow> handleArenaClick (gameActive s) s = s)"
  by (simp add: handleArenaClick_def)

theorem handleArenaClick_counts_witness:
  "gameActive (startGame False Medium (init 0)) \<and>
   misses (handleArenaClick True (startGame False Medium (init 0))) = 1 \<and>
   \<not> gameActive (init 0) \<and> handleArenaClick False (init 0) = init 0"
  using handleArenaClick_counts[of "startGame False Medium (init 0)"]
    handleArenaClick_counts[of "init 0"]
  by (simp add: evals)

subsection \<open>Ending a round\<close>

text \<open>
  C9. \<open>endGame\<close> after \<open>endGame\<close> is \<open>endGame\<close>, on every state; and in a reachable
  state whose round is already inactive \<open>endGame\<close> changes nothing.
\<close>

theorem endGame_idempotent:
  "endGame (endGame s) = endGame s \<and> (reachable s \<and> \<not> gameActive s \<longrightarrow> endGame s = s)"
  by (simp add: endGame_twice endGame_inactive reachable_inv)

theorem endGame_idempotent_witness:
  "reachable (init 0) \<and> \<not> gameActive (init 0) \<and> endGame (init 0) = init 0 \<and>
   endGame (endGame (startGame False Medium (init 0))) = endGame (startGame False Medium (init 0))"
  using endGame_idempotent[of "init 0"] endGame_idempotent[of "startGame False Medium (init 0)"]
    reachable_init[of 0]
  by (simp add: init_def endGame_eq)

text \<open>The only step that makes an active round inactive is the tick of the round clock
  that runs \<open>endGame\<close>.\<close>

lemma round_ends_by_endGame:
  assumes S: "step ev s = Some s'" and A: "gameActive s" and I: "\<not> gameActive s'"
  shows "\<exists>h e. ev = FireInterval h e \<and> timeLeft s \<le> 1 \<and>
               s' = (endGame (reschedule h s))\<lparr>timeLeft := 0\<rparr>"
proof (cases ev)
  case (FireInterval h e)
  from S FireInterval obtain iv :: interval where
    s': "s' = runInterval (iv_cb iv) e (reschedule h s)"
    by (auto simp: step_def split: option.splits if_splits)
  show ?thesis
  proof (cases "iv_cb iv")
    case GameTick
    with s' A I FireInterval show ?thesis
      by (auto simp: runInterval_def gameTick_def reschedule_def split: if_splits)
  next
    case (SpawnTick ga st)
    with s' A I show ?thesis
      by (auto simp: runInterval_def spawnTick_def setTimeout_def reschedule_def Let_def
            split: option.splits)
  qed
next
  case (FireTimeout h)
  from S FireTimeout obtain u :: timeout where
    s': "s' = runTimeout (to_cb u) (s\<lparr>timeouts := filter (\<lambda>u. to_id u \<noteq> h) (timeouts s)\<rparr>)"
    by (auto simp: step_def split: option.splits if_splits)
  show ?thesis using A I s'
    by (cases "to_cb u") (auto simp: runTimeout_def expireTarget_def removeTarget_def Let_def)
qed (use assms in \<open>auto simp: step_def handler_defs split: if_splits option.splits\<close>)

text \<open>
  C2. Once a round is over, a timer created before its end changes nothing: let \<open>s1\<close> be
  a reachable state with the round inactive (the state that the tick running \<open>endGame\<close>
  leaves, or any later one before the next start), \<open>h\<close> a timer handle handed out
  before \<open>s1\<close>, and \<open>s2\<close> any state reached from \<open>s1\<close>, also in a later round. Then no interval with handle \<open>h\<close> can
  fire in \<open>s2\<close> (\<open>endGame\<close> cleared the round clock and the spawner), and if the timeout
  with handle \<open>h\<close> fires in \<open>s2\<close> (an expiry or a removal after a hit; \<open>endGame\<close> does
  not clear these), then \<open>score\<close>, \<open>misses\<close> and the live targets are what they were.
\<close>

theorem stale_timers_inert:
  assumes R: "reachable s1" and I: "\<not> gameActive s1"
    and E: "run evs s1 = Some s2" and H: "h < nextTimer s1"
  shows "step (FireInterval h e) s2 = None \<and>
         (step (FireTimeout h) s2 = Some s3 \<longrightarrow>
            score s3 = score s2 \<and> misses s3 = misses s2 \<and> targets s3 = targets s2)"
proof -
  have V1: "inv s1" using R by (rule reachable_inv)
  have V2: "inv s2" using V1 E by (rule run_inv)
  have C: "created_before (nextTimer s1) (clock s1) s2"
    using created_before_inactive[OF V1 I] E by (rule run_created_before)
  from C H have "find (\<lambda>iv. iv_id iv = h) (intervals s2) = None"
    by (intro find_None_above[of _ "nextTimer s1"]) (simp_all add: created_before_def)
  then have a: "step (FireInterval h e) s2 = None"
    by (simp add: step_def)
  have b: "score s3 = score s2 \<and> misses s3 = misses s2 \<and> targets s3 = targets s2"
    if S: "step (FireTimeout h) s2 = Some s3"
  proof -
    from S obtain u where u: "u \<in> set (timeouts s2)" "to_id u = h" and
      s3: "s3 = runTimeout (to_cb u) (s2\<lparr>timeouts := filter (\<lambda>u. to_id u \<noteq> h) (timeouts s2)\<rparr>)"
      by (rule fired_timeout)
    from V2 u(1) have nc: "\<not> expire_captured (to_cb u)" by (simp add: inv_def inv_timers_def)
    from C u H have le: "cb_target (to_cb u) \<le> clock s1" by (simp add: created_before_def)
    from V1 I have e: "intervals s1 = []" "targets s1 = []"
      by (simp_all add: inv_def inv_timers_def inv_ids_def)
    from le e have P: "past_id (cb_target (to_cb u)) s1" by (simp add: past_id_def)
    have "\<forall>t\<in>set (targets s2). target_id t \<noteq> cb_target (to_cb u)"
      using V1 P _ E by (rule absent_run) (simp add: e)
    then have f: "filter (\<lambda>t. target_id t \<noteq> cb_target (to_cb u)) (targets s2) = targets s2"
      by simp
    show ?thesis using s3 nc f
      by (cases "to_cb u") (simp_all add: runTimeout_def expireTarget_def removeTarget_def)
  qed
  from a b show ?thesis by blast
qed

text \<open>Checked on a round that ends at 30000 with the expiry of the target spawned at 29500
  still pending; the next round starts at once and that expiry fires at 31200.\<close>

theorem stale_timers_inert_witness:
  "reachable round_over \<and> \<not> gameActive round_over \<and>
   run [ClickStart, Elapse 1200, FireInterval 5 arena] round_over =
     Some (next_round [\<lparr>to_id = 3, to_due = 31000, to_cb = Expire 29500 False\<rparr>,
                       \<lparr>to_id = 6, to_due = 32700, to_cb = Expire 31200 False\<rparr>]) \<and>
   (3::nat) < nextTimer round_over \<and> (2::nat) < nextTimer round_over \<and>
   step (FireInterval 2 arena)
     (next_round [\<lparr>to_id = 3, to_due = 31000, to_cb = Expire 29500 False\<rparr>,
                  \<lparr>to_id = 6, to_due = 32700, to_cb = Expire 31200 False\<rparr>]) = None \<and>
   step (FireTimeout 3)
     (next_round [\<lparr>to_id = 3, to_due = 31000, to_cb = Expire 29500 False\<rparr>,
                  \<lparr>to_id = 6, to_due = 32700, to_cb = Expire 31200 False\<rparr>]) =
     Some (next_round [\<lparr>to_id = 6, to_due = 32700, to_cb = Expire 31200 False\<rparr>])"
proof -
  have r: "reachable round_over" by (rule round_over_reachable)
  have i: "\<not> gameActive round_over" by simp
  have e: "run [ClickStart, Elapse 1200, FireInterval 5 arena] round_over =
     Some (next_round [\<lparr>to_id = 3, to_due = 31000, to_cb = Expire 29500 False\<rparr>,
                       \<lparr>to_id = 6, to_due = 32700, to_cb = Expire 31200 False\<rparr>])"
    by (simp add: evals)
  have h3: "(3::nat) < nextTimer round_over" and h2: "(2::nat) < nextTimer round_over"
    by simp_all
  have f: "step (FireTimeout 3)
     (next_round [\<lparr>to_id = 3, to_due = 31000, to_cb = Expire 29500 False\<rparr>,
                  \<lparr>to_id = 6, to_due = 32700, to_cb = Expire 31200 False\<rparr>]) =
     Some (next_round [\<lparr>to_id = 6, to_due = 32700, to_cb = Expire 31200 False\<rparr>])"
    by (simp add: evals)
  from stale_timers_inert[OF r i e h2, of arena]
  have g: "step (FireInterval 2 arena)
     (next_round [\<lparr>to_id = 3, to_due = 31000, to_cb = Expire 29500 False\<rparr>,
                  \<lparr>to_id = 6, to_due = 32700, to_cb = Expire 31200 False\<rparr>]) = None"
    by simp
  from stale_timers_inert[OF r i e h3, of arena] r i e h3 h2 f g show ?thesis by simp
qed

subsection \<open>Expiry of a target\<close>

text \<open>
  C1 says that the expiry of a target that was never hit, firing while the round is active,
  removes the target and adds 1 to \<open>misses\<close>. The code removes the target and leaves
  \<open>misses\<close> alone: the target spawned at 1200 expires at 2700, the round still active,
  and \<open>misses\<close> is 0 before and after. The expiry callback reads the \<open>gameActive\<close> of the
  render whose \<open>startGame\<close> ran, and the start button exists only in renders with
  \<open>gameActive = false\<close>.
\<close>

theorem expired_target_not_counted:
  "run (first_spawn @ second_spawn @ [Elapse 300]) (init 0) =
     Some (playing [first_target False, second_target] 0 28 (timers 3000 3600)
             [expiry1, \<lparr>to_id = 4, to_due = 3900, to_cb = Expire 2400 False\<rparr>] 5 2700) \<and>
   run (first_spawn @ second_spawn @ [Elapse 300, FireTimeout 3]) (init 0) =
     Some (playing [second_target] 0 28 (timers 3000 3600)
             [\<lparr>to_id = 4, to_due = 3900, to_cb = Expire 2400 False\<rparr>] 5 2700)"
  by (simp add: run_append run_first_spawn run_second_spawn)
     (simp add: evals)

text \<open>
  C3. No target is counted both as a hit and as a miss, in any order of its tap and its
  expiry. In a reachable state a timeout callback that fires (the expiry of a target, hit or
  not, or the removal after a hit) changes neither \<open>misses\<close> nor \<open>score\<close>; after the
  expiry of target \<open>i\<close> there is no button left to tap for \<open>i\<close>; and a tap on a target
  never changes \<open>misses\<close>.
\<close>

theorem one_outcome_per_target:
  assumes "reachable s" and "step (FireTimeout h) s = Some s'"
  shows "misses s' = misses s \<and> score s' = score s \<and>
         (\<forall>u i ga. find (\<lambda>t. to_id t = h) (timeouts s) = Some u \<and> to_cb u = Expire i ga
            \<longrightarrow> step (ClickTarget i) s' = None) \<and>
         (\<forall>i s''. step (ClickTarget i) s = Some s'' \<longrightarrow> misses s'' = misses s)"
proof -
  have V: "inv s" using assms(1) by (rule reachable_inv)
  have a: "misses s' = misses s \<and> score s' = score s"
    using V assms(2) by (rule timeout_counters)
  have b: "step (ClickTarget i) s' = None"
    if "find (\<lambda>t. to_id t = h) (timeouts s) = Some u" "to_cb u = Expire i ga" for u i ga
  proof -
    from assms(2) that
    have "s' = expireTarget i ga (s\<lparr>timeouts := filter (\<lambda>u. to_id u \<noteq> h) (timeouts s)\<rparr>)"
      by (auto simp: step_def runTimeout_def split: if_splits)
    then show ?thesis
      by (simp add: step_def expireTarget_def Let_def find_filter_out)
  qed
  from a b tap_counters show ?thesis by blast
qed

text \<open>Checked on the target spawned at 1200, tapped at 1300 and removed at 1500, whose
  expiry fires at 2700.\<close>

theorem one_outcome_per_target_witness:
  "reachable (respawned [expiry1] 2700) \<and>
   step (FireTimeout 3) (respawned [expiry1] 2700) = Some (respawned [] 2700) \<and>
   misses (respawned [] 2700) = misses (respawned [expiry1] 2700) \<and>
   score (respawned [] 2700) = score (respawned [expiry1] 2700) \<and>
   step (ClickTarget 1200) (respawned [] 2700) = None"
proof -
  have "run [Elapse 100, ClickTarget 1200, Elapse 200, FireTimeout 4, Elapse 500,
             FireInterval 1 arena, Elapse 400, FireInterval 2 arena2, Elapse 300]
          (spawned 1200) =
        Some (respawned [expiry1] 2700)"
    by (simp add: evals)
  with first_spawn_reachable have r: "reachable (respawned [expiry1] 2700)"
    by (rule run_reachable)
  have f: "step (FireTimeout 3) (respawned [expiry1] 2700) = Some (respawned [] 2700)"
    by (simp add: evals)
  have g: "step (ClickTarget 1200) (respawned [] 2700) = None"
    by (simp add: evals)
  from one_outcome_per_target[OF r f] r f g show ?thesis by simp
qed

subsection \<open>Taps on a target\<close>



subsection \<open>Where a target is placed\<close>

text \<open>
  C7 as stated fails when the arena is smaller than a target: in an arena 50 wide a medium
  target (60 wide) gets \<open>x = 1/2 * (50 - 60) = -5\<close>.
\<close>

theorem spawnTick_outside_narrow_arena:
  "map_option targets
     (run [ClickStart, Elapse 1000,
           FireInterval 1 \<lparr>arenaWidth = 50, arenaHeight = 500, random1 = 1/2, random2 = 1/2\<rparr>,
           Elapse 200,
           FireInterval 2 \<lparr>arenaWidth = 50, arenaHeight = 500, random1 = 1/2, random2 = 1/2\<rparr>]
        (init 0)) =
   Some [\<lparr>target_id = 1200, target_x = - 5, target_y = 220, target_active = True,
          target_hit = False\<rparr>]"
  by (simp add: evals)

text \<open>
  C7, amended. When the arena is at least as wide and as high as a target
  (\<open>targetSize \<le> w\<close>, \<open>targetSize \<le> h\<close>) and both random draws are in \<open>[0, 1)\<close>, the
  spawner's tick appends one target, with \<open>0 \<le> x \<le> w - targetSize\<close> and
  \<open>0 \<le> y \<le> h - targetSize\<close>. (In real arithmetic; the source computes in floating
  point.)
\<close>

theorem spawnTick_inside_arena:
  assumes "targetSize st \<le> w" "targetSize st \<le> h" "0 \<le> r1" "r1 < 1" "0 \<le> r2" "r2 < 1"
  shows "\<exists>t. targets (spawnTick ga st (Some (w, h)) r1 r2 s) = targets s @ [t] \<and>
             0 \<le> target_x t \<and> target_x t \<le> w - targetSize st \<and>
             0 \<le> target_y t \<and> target_y t \<le> h - targetSize st"
proof -
  have x: "0 \<le> r1 * (w - targetSize st) \<and> r1 * (w - targetSize st) \<le> w - targetSize st"
    using assms(1,3,4) by (simp add: mult_left_le_one_le)
  have y: "0 \<le> r2 * (h - targetSize st) \<and> r2 * (h - targetSize st) \<le> h - targetSize st"
    using assms(2,5,6) by (simp add: mult_left_le_one_le)
  show ?thesis using x y by (simp add: spawnTick_def setTimeout_def Let_def)
qed

theorem spawnTick_inside_arena_witness:
  "targetSize (difficultySettings Medium) \<le> 300 \<and>
   targetSize (difficultySettings Medium) \<le> 500 \<and>
   (0::real) \<le> 1/2 \<and> (1/2::real) < 1 \<and> (0::real) \<le> 1/4 \<and> (1/4::real) < 1 \<and>
   targets (spawnTick False (difficultySettings Medium) (Some (300, 500)) (1/2) (1/4) (init 0)) =
     [\<lparr>target_id = 0, target_x = 120, target_y = 110, target_active = True,
       target_hit = False\<rparr>] \<and>
   (0::real) \<le> 120 \<and> (120::real) \<le> 300 - targetSize (difficultySettings Medium) \<and>
   (0::real) \<le> 110 \<and> (110::real) \<le> 500 - targetSize (difficultySettings Medium)"
  using spawnTick_inside_arena[of "difficultySettings Medium" 300 500 "1/2" "1/4" False "init 0"]
  by (simp add: evals)

subsection \<open>After a hit\<close>

text \<open>
  C10 as stated fails in "removed exactly 200 time-units after the hit": the target spawned
  at 1200 is tapped at 2600, and at 2700 its expiry callback removes it, 100 after the hit,
  while the removal that \<open>hitTarget\<close> scheduled is still pending, due at 2800.
\<close>

theorem hit_target_removed_early:
  "run (first_spawn @ second_spawn @ [Elapse 200, ClickTarget 1200]) (init 0) =
     Some (playing [first_target True, second_target] 1 28 (timers 3000 3600)
             [expiry1,
              \<lparr>to_id = 4, to_due = 3900, to_cb = Expire 2400 False\<rparr>,
              \<lparr>to_id = 5, to_due = 2800, to_cb = Remove 1200\<rparr>] 6 2600) \<and>
   run (first_spawn @ second_spawn @ [Elapse 200, ClickTarget 1200, Elapse 100, FireTimeout 3])
       (init 0) =
     Some (playing [second_target] 1 28 (timers 3000 3600)
             [\<lparr>to_id = 4, to_due = 3900, to_cb = Expire 2400 False\<rparr>,
              \<lparr>to_id = 5, to_due = 2800, to_cb = Remove 1200\<rparr>] 6 2700)"
  by (simp add: run_append run_first_spawn run_second_spawn)
     (simp add: evals)

text \<open>
  C10, amended. For a target \<open>i\<close> that is live in a reachable state: once its hit flag is
  set, it is set in every later state in which the target is live; once the target has left
  the live targets, no target with id \<open>i\<close> is live in any later state; \<open>hitTarget\<close>
  schedules the removal callback to be due 200 after the hit, and after that callback has
  run the target is not live. (It may leave earlier: its expiry callback and \<open>endGame\<close>
  remove it too.)
\<close>

theorem hit_is_kept:
  assumes R: "reachable s" and F: "lookup i s = Some t"
    and E: "run evs s = Some s'" and E': "run evs' s' = Some s''"
  shows "(target_hit t \<longrightarrow> (\<forall>t'. lookup i s' = Some t' \<longrightarrow> target_hit t')) \<and>
         (lookup i s' = None \<longrightarrow> lookup i s'' = None) \<and>
         timeouts (hitTarget i s) =
           timeouts s @ [\<lparr>to_id = nextTimer s, to_due = clock s + 200, to_cb = Remove i\<rparr>] \<and>
         lookup i (removeTarget i s') = None"
proof -
  have V: "inv s" using R by (rule reachable_inv)
  have V': "inv s'" using V E by (rule run_inv)
  from find_SomeD[of "\<lambda>t. target_id t = i" "targets s" t] F
  have m: "t \<in> set (targets s)" and ti: "target_id t = i" by (simp_all add: lookup_def)
  have P: "past_id i s" using live_past_id[OF V m] ti by simp
  have P': "past_id i s'" using V P E by (rule run_past_id)
  have a: "target_hit t'" if h: "target_hit t" and l: "lookup i s' = Some t'" for t'
  proof -
    from find_SomeD[of "\<lambda>t. target_id t = i" "targets s'" t'] l
    have m': "t' \<in> set (targets s')" "target_id t' = i" by (simp_all add: lookup_def)
    from run_no_new_target[OF V P E m'] obtain t0 where
      t0: "t0 \<in> set (targets s)" "target_id t0 = i" "target_hit t0 \<longrightarrow> target_hit t'" by blast
    from V have "distinct (map target_id (targets s))" by (simp add: inv_def inv_ids_def)
    from same_id_same_target[OF this t0(1) m] t0(2) ti have "t0 = t" by simp
    with t0(3) h show ?thesis by simp
  qed
  have b: "lookup i s'' = None" if "lookup i s' = None"
  proof -
    from that have "\<forall>t\<in>set (targets s'). target_id t \<noteq> i"
      by (auto simp: lookup_def find_None_iff)
    from absent_run[OF V' P' this E'] show ?thesis
      by (auto simp: lookup_def find_None_iff)
  qed
  have c: "timeouts (hitTarget i s) =
           timeouts s @ [\<lparr>to_id = nextTimer s, to_due = clock s + 200, to_cb = Remove i\<rparr>]"
    by (simp add: hitTarget_def setTimeout_def Let_def)
  have d: "lookup i (removeTarget i s') = None"
    by (simp add: lookup_def removeTarget_def find_filter_out)
  from a b c d show ?thesis by blast
qed

text \<open>Checked on the first target after its tap at 1300: still hit at 1350, removed at
  1500, and not back when the spawner fires at 2400.\<close>

theorem hit_is_kept_witness:
  "reachable (tapped 1300) \<and>
   lookup 1200 (tapped 1300) = Some (first_target True) \<and> target_hit (first_target True) \<and>
   run [Elapse 50] (tapped 1300) = Some (tapped 1350) \<and>
   lookup 1200 (tapped 1350) = Some (first_target True) \<and>
   run [Elapse 200, FireTimeout 4] (tapped 1300) = Some removed \<and>
   lookup 1200 removed = None \<and>
   run [Elapse 500, FireInterval 1 arena, Elapse 400, FireInterval 2 arena2] removed =
     Some (respawned [expiry1] 2400) \<and>
   lookup 1200 (respawned [expiry1] 2400) = None"
proof -
  have "run [Elapse 100, ClickTarget 1200] (spawned 1200) = Some (tapped 1300)"
    by (simp add: evals)
  with first_spawn_reachable have r: "reachable (tapped 1300)" by (rule run_reachable)
  have l: "lookup 1200 (tapped 1300) = Some (first_target True)" by (simp add: lookup_def)
  have a: "run [Elapse 50] (tapped 1300) = Some (tapped 1350)" by (simp add: evals)
  have b: "run [Elapse 200, FireTimeout 4] (tapped 1300) = Some removed" by (simp add: evals)
  have c: "run [Elapse 500, FireInterval 1 arena, Elapse 400, FireInterval 2 arena2] removed =
           Some (respawned [expiry1] 2400)"
    by (simp add: evals)
  have d: "run [] (tapped 1350) = Some (tapped 1350)" by simp
  have k: "lookup 1200 (tapped 1350) = Some (first_target True)" by (simp add: lookup_def)
  have n: "lookup 1200 removed = None" by (simp add: lookup_def)
  from hit_is_kept[OF r l b c] n have m: "lookup 1200 (respawned [expiry1] 2400) = None"
    by simp
  from hit_is_kept[OF r l a d] r l a b c k n m show ?thesis by simp
qed

end
